theory Spec2Isabelle
  imports Main "HOL-Library.Char_ord" "HOL-Library.List_Lexorder"
begin

section \<open>Python values\<close>

text \<open>
  The configurator moves between nested dictionaries (the output of the JSON and TOML
  parsers) and trees of objects whose classes are created at run time with
  \<^verbatim>\<open>type(name, bases, attrs)\<close>. A value is one of the JSON-representable values, an
  object that carries an attribute dictionary, a \<^verbatim>\<open>pathlib.Path\<close>, or some other object
  without an attribute dictionary.

  \<^item> A dictionary is an association list in insertion order, as Python iterates it.
  \<^item> An object is its class and the attributes that \<^verbatim>\<open>getattr\<close> finds on it. The classes
    made by \<^verbatim>\<open>type()\<close> have one instance each, so the attributes of the class and of
    the instance are kept in one dictionary.
  \<^item> A \<^verbatim>\<open>Path\<close> is given by its string form.
  \<^item> \<open>PFloat m e\<close> is the float \<open>m * 2 ^ e\<close>; no function here computes with it.
  \<^item> \<open>POpaque s\<close> is any other truthy object without \<^verbatim>\<open>__dict__\<close> that the JSON
    encoder does not know (a date of a TOML file, a set), with \<open>s\<close> its \<^verbatim>\<open>str()\<close>.
\<close>

datatype klass = Made string | ConfigClass

datatype pyval =
    PNone
  | PBool bool
  | PInt int
  | PFloat int int
  | PStr string
  | PList "pyval list"
  | PDict "(string \<times> pyval) list"
  | PObj klass "(string \<times> pyval) list"
  | PPath string
  | POpaque string

type_synonym pydict = "(string \<times> pyval) list"

datatype error =
    TypeError
  | RuntimeError
  | AttributeError
  | NotImplementedError
  | FileNotFoundError
  | FileExistsError
  | NotADirectoryError
  | IsADirectoryError
  | PermissionError
  | OSError nat
  | ParseError
  | KeyFileError
  | DecryptionFailure

text \<open>\<^verbatim>\<open>bool(v)\<close>, as \<^verbatim>\<open>if v\<close> and \<^verbatim>\<open>a or b\<close> use it.\<close>

fun truthy :: "pyval \<Rightarrow> bool" where
  "truthy PNone = False"
| "truthy (PBool b) = b"
| "truthy (PInt i) = (i \<noteq> 0)"
| "truthy (PFloat m e) = (m \<noteq> 0)"
| "truthy (PStr s) = (s \<noteq> [])"
| "truthy (PList xs) = (xs \<noteq> [])"
| "truthy (PDict d) = (d \<noteq> [])"
| "truthy (PObj c attrs) = True"
| "truthy (PPath s) = True"
| "truthy (POpaque s) = True"

text \<open>\<^verbatim>\<open>d.update({k: v})\<close> and \<^verbatim>\<open>d[k] = v\<close>: a present key keeps its place.\<close>

fun dict_set :: "string \<Rightarrow> pyval \<Rightarrow> pydict \<Rightarrow> pydict" where
  "dict_set k v [] = [(k, v)]"
| "dict_set k v ((k', v') # kvs) =
     (if k' = k then (k, v) # kvs else (k', v') # dict_set k v kvs)"

section \<open>Strings\<close>

definition startswith :: "string \<Rightarrow> string \<Rightarrow> bool" where
  "startswith p s = (take (length p) s = p)"

definition endswith :: "string \<Rightarrow> string \<Rightarrow> bool" where
  "endswith p s = (length p \<le> length s \<and> drop (length s - length p) s = p)"

text \<open>\<^verbatim>\<open>sub in s\<close>.\<close>

fun contains :: "string \<Rightarrow> string \<Rightarrow> bool" where
  "contains sub [] = (sub = [])"
| "contains sub (c # cs) = (startswith sub (c # cs) \<or> contains sub cs)"

text \<open>\<^verbatim>\<open>s.split(sep)\<close> for a separator of one character.\<close>

fun splitc :: "char \<Rightarrow> string \<Rightarrow> string list" where
  "splitc sep [] = [[]]"
| "splitc sep (c # cs) =
     (if c = sep then [] # splitc sep cs
      else (case splitc sep cs of [] \<Rightarrow> [[c]] | w # ws \<Rightarrow> (c # w) # ws))"

text \<open>\<^verbatim>\<open>sep.join(ws)\<close>.\<close>

fun join :: "string \<Rightarrow> string list \<Rightarrow> string" where
  "join sep [] = []"
| "join sep [w] = w"
| "join sep (w # v # ws) = w @ sep @ join sep (v # ws)"

section \<open>The environment and \<^verbatim>\<open>pathlib\<close>\<close>

text \<open>
  What the program reads from its process: the working directory (an absolute path, as
  \<^verbatim>\<open>os.getcwd()\<close> returns it) and the home directories, \<open>homedir env []\<close> for the
  current user (\<^verbatim>\<open>~\<close>) and \<open>homedir env u\<close> for \<^verbatim>\<open>~u\<close>; \<open>None\<close> where the directory
  cannot be determined.

  The collaborators are parameters as well: the two text parsers, the key-file reader
  and the decryption of \<^verbatim>\<open>libnacl\<close>, and Python's \<^verbatim>\<open>str()\<close>.
\<close>

record env =
  cwd :: string
  homedir :: "string \<Rightarrow> string option"
  json_parse :: "string \<Rightarrow> error + pyval"
  toml_parse :: "string \<Rightarrow> error + pyval"
  load_key :: "string \<Rightarrow> error + string"
  decrypt :: "string \<Rightarrow> string \<Rightarrow> error + string"
  py_str :: "pyval \<Rightarrow> string"

text \<open>
  A parsed POSIX path: whether it is anchored at the root, and its components. Parsing
  drops empty components and \<^verbatim>\<open>.\<close>, and keeps \<^verbatim>\<open>..\<close>. The file system is taken to have
  no symbolic links, so that \<^verbatim>\<open>resolve()\<close> is the lexical normalisation of the path
  joined to the working directory.
\<close>

type_synonym ppath = "bool \<times> string list"

definition parse_path :: "string \<Rightarrow> ppath" where
  "parse_path s =
     (startswith ''/'' s, filter (\<lambda>p. p \<noteq> [] \<and> p \<noteq> ''.'') (splitc (CHR ''/'') s))"

text \<open>\<^verbatim>\<open>Path(val)\<close> takes a string or a path and raises \<^verbatim>\<open>TypeError\<close> on anything else.\<close>

fun Path :: "pyval \<Rightarrow> error + ppath" where
  "Path (PStr s) = Inr (parse_path s)"
| "Path (PPath s) = Inr (parse_path s)"
| "Path v = Inl TypeError"

definition expanduser :: "env \<Rightarrow> ppath \<Rightarrow> error + ppath" where
  "expanduser env p =
     (case p of (anchored, parts) \<Rightarrow>
        if \<not> anchored \<and> parts \<noteq> [] \<and> startswith ''~'' (hd parts) then
          (case homedir env (tl (hd parts)) of
             None \<Rightarrow> Inl RuntimeError
           | Some h \<Rightarrow> Inr (fst (parse_path h), snd (parse_path h) @ tl parts))
        else Inr p)"

fun collapse :: "string list \<Rightarrow> string list \<Rightarrow> string list" where
  "collapse acc [] = acc"
| "collapse acc (p # ps) =
     (if p = ''..'' then collapse (butlast acc) ps else collapse (acc @ [p]) ps)"

definition resolve :: "env \<Rightarrow> ppath \<Rightarrow> ppath" where
  "resolve env p =
     (case p of (anchored, parts) \<Rightarrow>
        (True, collapse [] (if anchored then parts else snd (parse_path (cwd env)) @ parts)))"

definition as_posix :: "ppath \<Rightarrow> string" where
  "as_posix p =
     (case p of (anchored, parts) \<Rightarrow>
        if anchored then ''/'' @ join ''/'' parts
        else if parts = [] then ''.'' else join ''/'' parts)"

text \<open>\<^verbatim>\<open>Path(val).expanduser().resolve()\<close>, as a parsed path.\<close>

definition resolved :: "env \<Rightarrow> pyval \<Rightarrow> error + ppath" where
  "resolved env val =
     (case Path val of
        Inl e \<Rightarrow> Inl e
      | Inr p \<Rightarrow> (case expanduser env p of Inl e \<Rightarrow> Inl e | Inr q \<Rightarrow> Inr (resolve env q)))"

text \<open>\<^verbatim>\<open>Path(val).expanduser().resolve().as_posix()\<close>.\<close>

definition posix_of :: "env \<Rightarrow> pyval \<Rightarrow> error + pyval" where
  "posix_of env val =
     (case resolved env val of Inl e \<Rightarrow> Inl e | Inr p \<Rightarrow> Inr (PStr (as_posix p)))"

text \<open>\<^verbatim>\<open>BaseConfig.convert_path\<close> and \<^verbatim>\<open>ConfigDecoder.process\<close> are the same function.\<close>

definition convert_path :: "env \<Rightarrow> string \<Rightarrow> pyval \<Rightarrow> error + pyval" where
  "convert_path env key val = (if contains ''path'' key then posix_of env val else Inr val)"

definition process :: "env \<Rightarrow> string \<Rightarrow> pyval \<Rightarrow> error + pyval" where
  "process env key val = (if contains ''path'' key then posix_of env val else Inr val)"

section \<open>Path resolution of a raw mapping\<close>

text \<open>
  \<^verbatim>\<open>BaseConfig.path_resolve\<close>: a value that is a dictionary is resolved recursively and
  is not itself converted; every other value goes through \<^verbatim>\<open>convert_path\<close>. The
  accumulator is the dictionary \<^verbatim>\<open>rv\<close> of the loop.
\<close>

fun path_resolve_items :: "env \<Rightarrow> pydict \<Rightarrow> pydict \<Rightarrow> error + pydict" where
  "path_resolve_items env [] rv = Inr rv"
| "path_resolve_items env ((k, v) # kvs) rv =
     (case (case v of
              PDict d \<Rightarrow>
                (case path_resolve_items env d [] of Inl e \<Rightarrow> Inl e | Inr r \<Rightarrow> Inr (PDict r))
            | _ \<Rightarrow> convert_path env k v) of
        Inl e \<Rightarrow> Inl e
      | Inr v1 \<Rightarrow> path_resolve_items env kvs (dict_set k v1 rv))"

definition path_resolve :: "env \<Rightarrow> pydict \<Rightarrow> error + pydict" where
  "path_resolve env d = path_resolve_items env d []"

section \<open>The decoder\<close>

text \<open>\<^verbatim>\<open>str.capitalize\<close> on ASCII letters; it only names the class that is created.\<close>

definition upper_char :: "char \<Rightarrow> char" where
  "upper_char c =
     (let n = (of_char c :: nat) in if 97 \<le> n \<and> n \<le> 122 then char_of (n - 32) else c)"

definition lower_char :: "char \<Rightarrow> char" where
  "lower_char c =
     (let n = (of_char c :: nat) in if 65 \<le> n \<and> n \<le> 90 then char_of (n + 32) else c)"

definition capitalize :: "string \<Rightarrow> string" where
  "capitalize s = (case s of [] \<Rightarrow> [] | c # cs \<Rightarrow> upper_char c # map lower_char cs)"

type_synonym processor = "string \<Rightarrow> pyval \<Rightarrow> error + pyval"

text \<open>
  A decoder is its two fields: the base class of the classes it creates and the
  processor. \<^verbatim>\<open>MapDecoder\<close> has the base \<^verbatim>\<open>BaseObject\<close> and the processor
  \<^verbatim>\<open>lambda k, v: v\<close>; \<^verbatim>\<open>ConfigDecoder\<close> has the base \<^verbatim>\<open>BaseConfig\<close> and the processor
  \<^verbatim>\<open>process\<close>.
\<close>

datatype base = BaseObject | BaseConfig

record decoder =
  bases :: base
  processor :: "string \<Rightarrow> pyval \<Rightarrow> error + pyval"


definition ConfigDecoder :: "env \<Rightarrow> decoder" where
  "ConfigDecoder env = \<lparr> bases = BaseConfig, processor = process env \<rparr>"

text \<open>
  \<^verbatim>\<open>new_class = type(name, bases, attrs); return new_class()\<close>. The base classes give
  the new class methods and no data attribute. \<^verbatim>\<open>BaseConfig\<close> has no constructor of its
  own. The constructor of \<^verbatim>\<open>BaseObject\<close> calls \<^verbatim>\<open>self.update()\<close>, which does nothing
  without arguments; an attribute named \<^verbatim>\<open>update\<close> shadows the method, and calling a
  value that is not callable raises \<^verbatim>\<open>TypeError\<close>. Keys that name a special method
  (\<^verbatim>\<open>__init__\<close>, \<^verbatim>\<open>__new__\<close>, \<^verbatim>\<open>__slots__\<close> and the like) are outside this model.
\<close>

definition new_instance :: "base \<Rightarrow> string \<Rightarrow> pydict \<Rightarrow> error + pyval" where
  "new_instance b name attrs =
     (if b = BaseObject \<and> map_of attrs ''update'' \<noteq> None then Inl TypeError
      else Inr (PObj (Made name) attrs))"

text \<open>
  \<^verbatim>\<open>MapDecoder.pack_dict\<close>. Only a value that is a dictionary is packed; the processor
  then sees the (possibly packed) value, and \<^verbatim>\<open>processor(k, v) or v\<close> keeps \<open>v\<close> where the
  processor's result is falsy.
\<close>

fun pack_items :: "decoder \<Rightarrow> pydict \<Rightarrow> pydict \<Rightarrow> error + pydict" where
  "pack_items dec [] attrs = Inr attrs"
| "pack_items dec ((k, v) # kvs) attrs =
     (case (case v of
              PDict d \<Rightarrow>
                (case pack_items dec d [] of
                   Inl e \<Rightarrow> Inl e
                 | Inr a \<Rightarrow> new_instance (bases dec) (capitalize k) a)
            | _ \<Rightarrow> Inr v) of
        Inl e \<Rightarrow> Inl e
      | Inr v1 \<Rightarrow>
          (case processor dec k v1 of
             Inl e \<Rightarrow> Inl e
           | Inr r \<Rightarrow> pack_items dec kvs (dict_set k (if truthy r then r else v1) attrs)))"

definition pack_dict :: "decoder \<Rightarrow> pydict \<Rightarrow> string \<Rightarrow> error + pyval" where
  "pack_dict dec d cname =
     (case pack_items dec d [] of
        Inl e \<Rightarrow> Inl e
      | Inr a \<Rightarrow> new_instance (bases dec) (capitalize cname) a)"

text \<open>\<^verbatim>\<open>MapDecoder._object_hook\<close>: the processor is not called on the entries of \<open>dct\<close>.\<close>

fun object_hook_items :: "decoder \<Rightarrow> pydict \<Rightarrow> pydict \<Rightarrow> error + pydict" where
  "object_hook_items dec [] rv = Inr rv"
| "object_hook_items dec ((k, v) # kvs) rv =
     (case (case v of PDict d \<Rightarrow> pack_dict dec d k | _ \<Rightarrow> Inr v) of
        Inl e \<Rightarrow> Inl e
      | Inr v1 \<Rightarrow> object_hook_items dec kvs (dict_set k v1 rv))"

definition object_hook :: "decoder \<Rightarrow> pydict \<Rightarrow> error + pyval" where
  "object_hook dec dct =
     (case object_hook_items dec dct [] of Inl e \<Rightarrow> Inl e | Inr rv \<Rightarrow> Inr (PDict rv))"

text \<open>
  The values that the stock \<^verbatim>\<open>json\<close> encoder serialises; on any other value
  \<^verbatim>\<open>JSONEncoder.default\<close> raises \<^verbatim>\<open>TypeError\<close>.
\<close>

fun json_ok :: "pyval \<Rightarrow> bool" and json_ok_list :: "pyval list \<Rightarrow> bool"
  and json_ok_items :: "pydict \<Rightarrow> bool" where
  "json_ok PNone = True"
| "json_ok (PBool b) = True"
| "json_ok (PInt i) = True"
| "json_ok (PFloat m e) = True"
| "json_ok (PStr s) = True"
| "json_ok (PList xs) = json_ok_list xs"
| "json_ok (PDict d) = json_ok_items d"
| "json_ok (PObj c attrs) = False"
| "json_ok (PPath s) = False"
| "json_ok (POpaque s) = False"
| "json_ok_list [] = True"
| "json_ok_list (x # xs) = (json_ok x \<and> json_ok_list xs)"
| "json_ok_items [] = True"
| "json_ok_items ((k, v) # kvs) = (json_ok v \<and> json_ok_items kvs)"

text \<open>
  \<^verbatim>\<open>json.loads(text, cls=decoder)\<close>, with the text given by the value it denotes. This is
  the only way the program decodes. The JSON decoder calls the object hook on every
  object of the text, innermost first, those inside arrays included, and leaves an array
  as the list of what its elements decode to.
\<close>

fun loads :: "decoder \<Rightarrow> pyval \<Rightarrow> error + pyval"
  and loads_list :: "decoder \<Rightarrow> pyval list \<Rightarrow> error + pyval list"
  and loads_items :: "decoder \<Rightarrow> pydict \<Rightarrow> error + pydict" where
  "loads dec (PDict kvs) =
     (case loads_items dec kvs of Inl e \<Rightarrow> Inl e | Inr kvs' \<Rightarrow> object_hook dec kvs')"
| "loads dec (PList xs) =
     (case loads_list dec xs of Inl e \<Rightarrow> Inl e | Inr xs' \<Rightarrow> Inr (PList xs'))"
| "loads dec v = Inr v"
| "loads_list dec [] = Inr []"
| "loads_list dec (x # xs) =
     (case loads dec x of
        Inl e \<Rightarrow> Inl e
      | Inr x' \<Rightarrow> (case loads_list dec xs of Inl e \<Rightarrow> Inl e | Inr xs' \<Rightarrow> Inr (x' # xs')))"
| "loads_items dec [] = Inr []"
| "loads_items dec ((k, v) # kvs) =
     (case loads dec v of
        Inl e \<Rightarrow> Inl e
      | Inr v' \<Rightarrow>
          (case loads_items dec kvs of Inl e \<Rightarrow> Inl e | Inr kvs' \<Rightarrow> Inr ((k, v') # kvs')))"

text \<open>\<^verbatim>\<open>json.loads(json.dumps(raw), cls=decoder)\<close>.\<close>

definition dumps_loads :: "decoder \<Rightarrow> pyval \<Rightarrow> error + pyval" where
  "dumps_loads dec raw = (if json_ok raw then loads dec raw else Inl TypeError)"

section \<open>The encoder\<close>

text \<open>The exclusion test of \<^verbatim>\<open>process_cls\<close>: \<^verbatim>\<open>a.startswith("_") and a.endswith("_")\<close>.\<close>

definition private_name :: "string \<Rightarrow> bool" where
  "private_name a = (startswith ''_'' a \<and> endswith ''_'' a)"

text \<open>\<^verbatim>\<open>hasattr(v, "__dict__")\<close>.\<close>

definition has_dict :: "pyval \<Rightarrow> bool" where
  "has_dict v = (case v of PObj c attrs \<Rightarrow> True | _ \<Rightarrow> False)"

text \<open>
  \<^verbatim>\<open>getmembers(obj, lambda a: not isroutine(a))\<close> lists, sorted by name, every name of
  \<^verbatim>\<open>dir(obj)\<close> whose value is not a routine. Besides the attributes that were set, these
  are the data members every instance inherits from \<^verbatim>\<open>object\<close> and, on a \<^verbatim>\<open>Config\<close>,
  the properties \<^verbatim>\<open>save_path\<close> and \<^verbatim>\<open>key_path\<close>, which \<^verbatim>\<open>getattr\<close> evaluates to
  \<^verbatim>\<open>self._save_path_.as_posix()\<close> and \<^verbatim>\<open>self._key_path_.as_posix()\<close>. A name whose
  \<^verbatim>\<open>getattr\<close> raises \<^verbatim>\<open>AttributeError\<close> is skipped.
\<close>

definition special_members :: pydict where
  "special_members =
     [(''__class__'', POpaque ''<class>''), (''__dict__'', POpaque ''<dict>''),
      (''__doc__'', PNone), (''__module__'', PStr ''configurator''),
      (''__weakref__'', PNone)]"

definition path_property :: "pydict \<Rightarrow> string \<Rightarrow> pyval option" where
  "path_property attrs pname =
     (case map_of attrs pname of
        Some (PPath s) \<Rightarrow> Some (PStr (as_posix (parse_path s)))
      | _ \<Rightarrow> None)"

definition dict_del :: "string \<Rightarrow> pydict \<Rightarrow> pydict" where
  "dict_del k d = filter (\<lambda>kv. fst kv \<noteq> k) d"

definition with_property :: "string \<Rightarrow> pyval option \<Rightarrow> pydict \<Rightarrow> pydict" where
  "with_property name got m = (case got of Some v \<Rightarrow> dict_set name v m | None \<Rightarrow> dict_del name m)"

definition dict_of :: "pydict \<Rightarrow> pydict \<Rightarrow> pydict" where
  "dict_of kvs d = fold (\<lambda>kv. dict_set (fst kv) (snd kv)) kvs d"

definition members :: "klass \<Rightarrow> pydict \<Rightarrow> pydict" where
  "members c attrs =
     (case c of
        Made n \<Rightarrow> dict_of attrs special_members
      | ConfigClass \<Rightarrow>
          with_property ''key_path'' (path_property attrs ''_key_path_'')
            (with_property ''save_path'' (path_property attrs ''_save_path_'')
               (dict_of attrs special_members)))"

definition getmembers :: "klass \<Rightarrow> pydict \<Rightarrow> pydict" where
  "getmembers c attrs = sort_key fst (members c attrs)"

lemma dict_set_subset: "set (dict_set k v d) \<subseteq> insert (k, v) (set d)"
  by (induction d) (auto split: if_splits)

lemma dict_of_subset: "set (dict_of kvs d) \<subseteq> set kvs \<union> set d"
proof (induction kvs arbitrary: d)
  case Nil
  then show ?case by (simp add: dict_of_def)
next
  case (Cons kv kvs)
  have "set (dict_of (kv # kvs) d) = set (dict_of kvs (dict_set (fst kv) (snd kv) d))"
    by (simp add: dict_of_def)
  also have "\<dots> \<subseteq> set kvs \<union> set (dict_set (fst kv) (snd kv) d)"
    by (rule Cons.IH)
  also have "\<dots> \<subseteq> set (kv # kvs) \<union> set d"
    using dict_set_subset[of "fst kv" "snd kv" d] by auto
  finally show ?case .
qed

lemma members_has_dict:
  assumes "(k, v) \<in> set (members c attrs)" and "has_dict v"
  shows "(k, v) \<in> set attrs"
proof -
  have base: "(k, v) \<in> set (dict_of attrs special_members) \<Longrightarrow> (k, v) \<in> set attrs"
    using dict_of_subset[of attrs special_members] assms(2)
    by (auto simp: special_members_def has_dict_def)
  have wp: "\<And>name got m. (k, v) \<in> set (with_property name got m) \<Longrightarrow>
      (\<forall>x. got = Some x \<longrightarrow> \<not> has_dict x) \<Longrightarrow> (k, v) \<in> set m"
    using assms(2) dict_set_subset
    by (fastforce simp: with_property_def dict_del_def split: option.splits)
  have str: "\<And>pname x. path_property attrs pname = Some x \<longrightarrow> \<not> has_dict x"
    by (auto simp: path_property_def has_dict_def split: option.splits pyval.splits)
  show ?thesis
  proof (cases c)
    case (Made n)
    then show ?thesis using assms(1) base by (simp add: members_def)
  next
    case ConfigClass
    then have "(k, v) \<in> set (dict_of attrs special_members)"
      using assms(1) wp str unfolding members_def by (metis klass.simps(5))
    then show ?thesis by (rule base)
  qed
qed

lemma size_attr: "(k, v) \<in> set attrs \<Longrightarrow> size v < size (PObj c attrs)"
  by (induction attrs) auto

text \<open>
  \<^verbatim>\<open>MapEncoder.process_cls\<close>. An object with an attribute dictionary becomes the
  dictionary of its members whose name passes the exclusion test; a member that has an
  attribute dictionary is processed recursively and every other member is stored as it
  is. Only when \<open>obj\<close> itself has no attribute dictionary is \<^verbatim>\<open>str(obj)\<close> returned.
\<close>

function (sequential) process_cls :: "env \<Rightarrow> pyval \<Rightarrow> pyval" where
  "process_cls env (PObj c attrs) =
     PDict (dict_of
       (map (\<lambda>kv. (fst kv, if has_dict (snd kv) then process_cls env (snd kv) else snd kv))
          (filter (\<lambda>a. \<not> private_name (fst a)) (getmembers c attrs))) [])"
| "process_cls env obj = PStr (py_str env obj)"
  by pat_completeness auto

termination
proof (relation "measure (\<lambda>(env, v). size v)")
  show "wf (measure (\<lambda>(env, v). size v))"
    by simp
next
  fix env :: env and c attrs and kv :: "string \<times> pyval"
  assume kv: "kv \<in> set (filter (\<lambda>a. \<not> private_name (fst a)) (getmembers c attrs))"
    and obj: "has_dict (snd kv)"
  have "(fst kv, snd kv) \<in> set (members c attrs)"
    using kv by (simp add: getmembers_def)
  then have "(fst kv, snd kv) \<in> set attrs"
    using obj by (rule members_has_dict)
  then have "size (snd kv) < size (PObj c attrs)"
    by (rule size_attr)
  then show "((env, snd kv), (env, PObj c attrs)) \<in> measure (\<lambda>(env, v). size v)"
    by simp
qed


section \<open>Updating attributes\<close>

text \<open>
  \<^verbatim>\<open>BaseObject.update\<close>, a class method: the attributes are those of the class.
  \<^verbatim>\<open>dict(__d).update(**kwargs)\<close> returns \<^verbatim>\<open>None\<close>, which has no \<^verbatim>\<open>items\<close>.
\<close>

fun BaseObject_setattrs :: "env \<Rightarrow> pydict \<Rightarrow> pydict \<Rightarrow> error option \<times> pydict" where
  "BaseObject_setattrs env [] attrs = (None, attrs)"
| "BaseObject_setattrs env ((k, v) # items) attrs =
     (if contains ''path'' k then
        (case posix_of env v of
           Inl e \<Rightarrow> (Some e, attrs)
         | Inr v' \<Rightarrow> BaseObject_setattrs env items (dict_set k v' attrs))
      else BaseObject_setattrs env items (dict_set k v attrs))"

definition BaseObject_update :: "env \<Rightarrow> pydict \<Rightarrow> pydict \<Rightarrow> pydict \<Rightarrow> error option \<times> pydict" where
  "BaseObject_update env d kwargs attrs =
     (let data = (if d \<noteq> [] \<and> kwargs \<noteq> [] then PNone
                  else PDict (if d \<noteq> [] then d else kwargs))
      in case data of
           PDict items \<Rightarrow> BaseObject_setattrs env items attrs
         | _ \<Rightarrow> (Some AttributeError, attrs))"

text \<open>
  \<^verbatim>\<open>setattr(self, k, v)\<close> on an instance. On a \<^verbatim>\<open>Config\<close> the names \<^verbatim>\<open>save_path\<close> and
  \<^verbatim>\<open>key_path\<close> are properties, whose setters store the resolved path under the private
  name.
\<close>

definition setattr :: "env \<Rightarrow> klass \<Rightarrow> pydict \<Rightarrow> string \<Rightarrow> pyval \<Rightarrow> error + pydict" where
  "setattr env c attrs k v =
     (case c of
        Made n \<Rightarrow> Inr (dict_set k v attrs)
      | ConfigClass \<Rightarrow>
          if k = ''save_path'' then
            (case resolved env v of
               Inl e \<Rightarrow> Inl e
             | Inr p \<Rightarrow> Inr (dict_set ''_save_path_'' (PPath (as_posix p)) attrs))
          else if k = ''key_path'' then
            (case resolved env v of
               Inl e \<Rightarrow> Inl e
             | Inr p \<Rightarrow> Inr (dict_set ''_key_path_'' (PPath (as_posix p)) attrs))
          else Inr (dict_set k v attrs))"

text \<open>
  \<^verbatim>\<open>BaseConfig.set_attr\<close>. \<open>val\<close> is computed for every entry; it is handed to
  \<^verbatim>\<open>processor_cb\<close> when there is one, and otherwise the attribute is set to \<open>v\<close>. An
  exception leaves the attributes that were set before it.
\<close>

fun set_attr :: "env \<Rightarrow> klass \<Rightarrow> processor option \<Rightarrow> pydict \<Rightarrow> pydict \<Rightarrow> error option \<times> pydict" where
  "set_attr env c processor_cb [] attrs = (None, attrs)"
| "set_attr env c processor_cb ((k, v) # data) attrs =
     (case convert_path env k v of
        Inl e \<Rightarrow> (Some e, attrs)
      | Inr val \<Rightarrow>
          (case (case processor_cb of Some cb \<Rightarrow> cb k val | None \<Rightarrow> Inr v) of
             Inl e \<Rightarrow> (Some e, attrs)
           | Inr x \<Rightarrow>
               (case setattr env c attrs k x of
                  Inl e \<Rightarrow> (Some e, attrs)
                | Inr attrs' \<Rightarrow> set_attr env c processor_cb data attrs')))"

text \<open>\<^verbatim>\<open>BaseConfig.update\<close>: \<^verbatim>\<open>dict(data, **kwargs) if data else dict(**kwargs)\<close>.\<close>

definition BaseConfig_update ::
  "env \<Rightarrow> klass \<Rightarrow> pydict option \<Rightarrow> processor option \<Rightarrow> pydict \<Rightarrow> pydict \<Rightarrow> error option \<times> pydict" where
  "BaseConfig_update env c data processor_cb kwargs attrs =
     set_attr env c processor_cb
       (case data of
          None \<Rightarrow> dict_of kwargs []
        | Some d \<Rightarrow> if d \<noteq> [] then dict_of kwargs d else dict_of kwargs [])
       attrs"

section \<open>The store\<close>

text \<open>
  The file system as the program meets it, at the path it hands to the operating
  system. \<open>fs p\<close> is what \<^verbatim>\<open>stat\<close> gives there: the exception it raises
  (\<^verbatim>\<open>FileNotFoundError\<close> where nothing is there, \<^verbatim>\<open>PermissionError\<close> below a directory
  that may not be searched, \<open>OSError 36\<close> for a name that is too long, and so on), or
  what is there. A regular file carries what opening and reading it gives, its content
  or the exception (\<^verbatim>\<open>PermissionError\<close> for a file that may not be read). A directory
  carries the exception, if any, that creating an entry in it raises. \<open>OSError n\<close> is
  an \<^verbatim>\<open>OSError\<close> of errno \<open>n\<close> that has no class of its own.
\<close>

datatype fnode = File "error + string" | Dir "error option"

type_synonym filesystem = "string \<Rightarrow> error + fnode"

text \<open>
  The errors that \<^verbatim>\<open>Path.exists\<close>, \<^verbatim>\<open>is_file\<close> and \<^verbatim>\<open>is_dir\<close> take for "not there":
  ENOENT, ENOTDIR, EBADF (9) and ELOOP (40). Every other error of \<^verbatim>\<open>stat\<close> is raised
  again.
\<close>

definition ignore_error :: "error \<Rightarrow> bool" where
  "ignore_error e =
     (e = FileNotFoundError \<or> e = NotADirectoryError \<or> e = OSError 9 \<or> e = OSError 40)"

definition path_exists :: "filesystem \<Rightarrow> ppath \<Rightarrow> error + bool" where
  "path_exists fs p =
     (case fs (as_posix p) of
        Inr node \<Rightarrow> Inr True
      | Inl e \<Rightarrow> if ignore_error e then Inr False else Inl e)"

definition is_file :: "filesystem \<Rightarrow> ppath \<Rightarrow> error + bool" where
  "is_file fs p =
     (case fs (as_posix p) of
        Inr (File r) \<Rightarrow> Inr True
      | Inr (Dir w) \<Rightarrow> Inr False
      | Inl e \<Rightarrow> if ignore_error e then Inr False else Inl e)"

definition is_dir :: "filesystem \<Rightarrow> ppath \<Rightarrow> error + bool" where
  "is_dir fs p =
     (case fs (as_posix p) of
        Inr (File r) \<Rightarrow> Inr False
      | Inr (Dir w) \<Rightarrow> Inr True
      | Inl e \<Rightarrow> if ignore_error e then Inr False else Inl e)"

text \<open>\<^verbatim>\<open>p.exists() and p.is_file()\<close>.\<close>

definition exists_and_is_file :: "filesystem \<Rightarrow> ppath \<Rightarrow> error + bool" where
  "exists_and_is_file fs p =
     (case path_exists fs p of
        Inl e \<Rightarrow> Inl e
      | Inr there \<Rightarrow> if there then is_file fs p else Inr False)"

text \<open>\<^verbatim>\<open>open(p, "r")\<close> with the reading that follows, and \<^verbatim>\<open>p.read_bytes()\<close>.\<close>

definition read_file :: "filesystem \<Rightarrow> ppath \<Rightarrow> error + string" where
  "read_file fs p =
     (case fs (as_posix p) of
        Inl e \<Rightarrow> Inl e
      | Inr (File r) \<Rightarrow> r
      | Inr (Dir w) \<Rightarrow> Inl IsADirectoryError)"

definition parent :: "ppath \<Rightarrow> ppath" where
  "parent p = (fst p, butlast (snd p))"

text \<open>
  \<^verbatim>\<open>p.mkdir(exist_ok=True)\<close>: the directory above \<open>p\<close> is not created. Where something
  is at \<open>p\<close>, \<^verbatim>\<open>os.mkdir\<close> raises \<^verbatim>\<open>FileExistsError\<close>, which is dropped if \<open>p\<close> is a
  directory. Every other exception of \<^verbatim>\<open>os.mkdir\<close> is raised.
\<close>

definition os_mkdir :: "filesystem \<Rightarrow> ppath \<Rightarrow> error + filesystem" where
  "os_mkdir fs p =
     (case fs (as_posix p) of
        Inr node \<Rightarrow> Inl FileExistsError
      | Inl e \<Rightarrow>
          if e = FileNotFoundError then
            (case fs (as_posix (parent p)) of
               Inr (Dir None) \<Rightarrow> Inr (fs(as_posix p := Inr (Dir None)))
             | Inr (Dir (Some e')) \<Rightarrow> Inl e'
             | Inr (File r) \<Rightarrow> Inl NotADirectoryError
             | Inl e' \<Rightarrow> Inl e')
          else Inl e)"

definition mkdir_exist_ok :: "filesystem \<Rightarrow> ppath \<Rightarrow> error + filesystem" where
  "mkdir_exist_ok fs p =
     (case os_mkdir fs p of
        Inr fs' \<Rightarrow> Inr fs'
      | Inl e \<Rightarrow>
          if e = FileNotFoundError then Inl e
          else (case is_dir fs p of
                  Inl e' \<Rightarrow> Inl e'
                | Inr d \<Rightarrow> if d then Inr fs else Inl e))"

text \<open>\<^verbatim>\<open>s.rfind(c)\<close> and \<^verbatim>\<open>p.suffix\<close>.\<close>

fun rfind :: "char \<Rightarrow> string \<Rightarrow> int" where
  "rfind c [] = - 1"
| "rfind c (x # xs) =
     (let r = rfind c xs in if 0 \<le> r then r + 1 else if x = c then 0 else - 1)"

definition suffix :: "ppath \<Rightarrow> string" where
  "suffix p =
     (case snd p of
        [] \<Rightarrow> []
      | q # qs \<Rightarrow>
          (let name = last (q # qs); i = rfind (CHR ''.'') name
           in if 0 < i \<and> i < int (length name) - 1 then drop (nat i) name else []))"

text \<open>
  A \<^verbatim>\<open>Config\<close> is its attribute dictionary, with the save target and the key file
  under \<^verbatim>\<open>_save_path_\<close> and \<^verbatim>\<open>_key_path_\<close> and the decoded mapping under
  \<^verbatim>\<open>_converted_\<close>. \<open>the_path\<close> reads an attribute on which a method of \<^verbatim>\<open>Path\<close> is
  called.
\<close>

definition the_path :: "pydict \<Rightarrow> string \<Rightarrow> error + ppath" where
  "the_path self name =
     (case map_of self name of Some (PPath s) \<Rightarrow> Inr (parse_path s) | _ \<Rightarrow> Inl AttributeError)"

text \<open>\<^verbatim>\<open>self._converted_ = converted; self.set_attr(self._converted_)\<close>.\<close>

definition merge_converted :: "env \<Rightarrow> pyval \<Rightarrow> pydict \<Rightarrow> error option \<times> pydict" where
  "merge_converted env converted self =
     (let self1 = dict_set ''_converted_'' converted self
      in case converted of
           PDict items \<Rightarrow> set_attr env ConfigClass None items self1
         | _ \<Rightarrow> (Some AttributeError, self1))"

text \<open>
  \<^verbatim>\<open>Config.load\<close>. The result is the exception, if any, the file system and the store.
  The file is opened before its extension is looked at.
\<close>

definition load ::
  "env \<Rightarrow> filesystem \<Rightarrow> pyval \<Rightarrow> pydict \<Rightarrow> error option \<times> filesystem \<times> pydict" where
  "load env fs load_path self =
     (case the_path self ''_save_path_'' of
        Inl e \<Rightarrow> (Some e, fs, self)
      | Inr sp \<Rightarrow>
      (case mkdir_exist_ok fs (parent sp) of
        Inl e \<Rightarrow> (Some e, fs, self)
      | Inr fs1 \<Rightarrow>
      (case Path load_path of
        Inl e \<Rightarrow> (Some e, fs1, self)
      | Inr p \<Rightarrow>
      (case exists_and_is_file fs1 p of
        Inl e \<Rightarrow> (Some e, fs1, self)
      | Inr regular \<Rightarrow>
          if regular then
            (case read_file fs1 p of
               Inl e \<Rightarrow> (Some e, fs1, self)
             | Inr content \<Rightarrow>
             (case (if suffix p = ''.json'' then json_parse env content
                    else if suffix p = ''.toml'' then toml_parse env content
                    else Inl NotImplementedError) of
               Inl e \<Rightarrow> (Some e, fs1, self)
             | Inr (PDict data) \<Rightarrow>
                 (case path_resolve env data of
                    Inl e \<Rightarrow> (Some e, fs1, self)
                  | Inr raw_dict \<Rightarrow>
                      if raw_dict \<noteq> [] then
                        (case dumps_loads (ConfigDecoder env) (PDict raw_dict) of
                           Inl e \<Rightarrow> (Some e, fs1, self)
                         | Inr converted \<Rightarrow>
                             (case merge_converted env converted self of
                                (err, self') \<Rightarrow> (err, fs1, self')))
                      else (None, fs1, self))
             | Inr other \<Rightarrow> (Some AttributeError, fs1, self)))
          else (Some FileNotFoundError, fs1, self)))))"



section \<open>Facts about paths\<close>

definition clean :: "string list \<Rightarrow> bool" where
  "clean ps = (\<forall>p \<in> set ps. p \<noteq> [] \<and> p \<noteq> ''.'' \<and> CHR ''/'' \<notin> set p)"

lemma splitc_nonempty: "splitc sep s \<noteq> []"
  by (induction s) (auto split: list.splits)

lemma splitc_no_sep: "w \<in> set (splitc sep s) \<Longrightarrow> sep \<notin> set w"
  by (induction s arbitrary: w) (auto split: if_splits list.splits)

lemma splitc_word: "sep \<notin> set w \<Longrightarrow> splitc sep w = [w]"
  by (induction w) auto

lemma splitc_append: "sep \<notin> set w \<Longrightarrow> splitc sep (w @ sep # rest) = w # splitc sep rest"
  by (induction w) (auto simp: splitc_nonempty split: list.splits)

lemma splitc_join:
  "ps \<noteq> [] \<Longrightarrow> \<forall>p \<in> set ps. CHR ''/'' \<notin> set p \<Longrightarrow> splitc (CHR ''/'') (join ''/'' ps) = ps"
proof (induction ps rule: induct_list012)
  case 1
  then show ?case by simp
next
  case (2 w)
  then show ?case by (simp add: splitc_word)
next
  case (3 w v ws)
  then show ?case by (simp add: splitc_append)
qed

lemma clean_parse: "clean (snd (parse_path s))"
  by (auto simp: clean_def parse_path_def dest: splitc_no_sep)

lemma parse_as_posix:
  assumes "clean ps"
  shows "parse_path (CHR ''/'' # join ''/'' ps) = (True, ps)"
proof (cases "ps = []")
  case True
  then show ?thesis by (simp add: parse_path_def startswith_def)
next
  case False
  have nosep: "\<forall>p \<in> set ps. CHR ''/'' \<notin> set p"
    using assms by (simp add: clean_def)
  have keep: "filter (\<lambda>p. p \<noteq> [] \<and> p \<noteq> ''.'') ps = ps"
    using assms by (auto simp: clean_def intro: filter_True)
  show ?thesis
    using False nosep keep by (simp add: parse_path_def startswith_def splitc_join)
qed

lemma collapse_subset: "set (collapse acc ps) \<subseteq> set acc \<union> set ps"
proof (induction ps arbitrary: acc)
  case Nil
  then show ?case by simp
next
  case (Cons p ps)
  have "set (butlast acc) \<subseteq> set acc"
    by (auto dest: in_set_butlastD)
  with Cons.IH[of "butlast acc"] Cons.IH[of "acc @ [p]"] show ?case
    by (auto split: if_splits)
qed

lemma collapse_no_dotdot: "''..'' \<notin> set acc \<Longrightarrow> ''..'' \<notin> set (collapse acc ps)"
  by (induction ps arbitrary: acc) (auto dest: in_set_butlastD)

lemma collapse_id: "''..'' \<notin> set ps \<Longrightarrow> collapse acc ps = acc @ ps"
  by (induction ps arbitrary: acc) auto

lemma clean_collapse: "clean ps \<Longrightarrow> clean (collapse [] ps)"
  using collapse_subset[of "[]" ps] by (auto simp: clean_def)

lemma clean_append: "clean (xs @ ys) = (clean xs \<and> clean ys)"
  by (auto simp: clean_def)

lemma clean_tl: "clean ps \<Longrightarrow> clean (tl ps)"
  by (cases ps) (auto simp: clean_def)

lemma expanduser_clean:
  "clean (snd p) \<Longrightarrow> expanduser env p = Inr q \<Longrightarrow> clean (snd q)"
  by (cases p)
     (auto simp: expanduser_def clean_append clean_parse clean_tl
           split: if_splits option.splits)

lemma resolve_shape:
  assumes "clean (snd p)"
  shows "\<exists>ps. resolve env p = (True, ps) \<and> clean ps \<and> ''..'' \<notin> set ps"
proof (cases p)
  case (Pair anchored parts)
  let ?xs = "if anchored then parts else snd (parse_path (cwd env)) @ parts"
  have "clean ?xs"
    using assms Pair by (simp add: clean_append clean_parse)
  then have "clean (collapse [] ?xs)"
    by (rule clean_collapse)
  moreover have "''..'' \<notin> set (collapse [] ?xs)"
    by (rule collapse_no_dotdot) simp
  ultimately show ?thesis
    using Pair by (simp add: resolve_def)
qed

lemma Path_clean: "Path v = Inr p \<Longrightarrow> clean (snd p)"
  by (cases v) (auto simp: clean_parse)

lemma resolved_shape:
  assumes "resolved env v = Inr p"
  shows "\<exists>ps. p = (True, ps) \<and> clean ps \<and> ''..'' \<notin> set ps"
proof -
  from assms obtain p0 q where p0: "Path v = Inr p0"
    and q: "expanduser env p0 = Inr q" and p: "p = resolve env q"
    by (auto simp: resolved_def split: sum.splits)
  have "clean (snd q)"
    using Path_clean[OF p0] q by (rule expanduser_clean)
  from resolve_shape[OF this, of env] p show ?thesis
    by auto
qed

lemma resolved_fixed:
  assumes "clean ps" and "''..'' \<notin> set ps"
  shows "resolved env (PStr (as_posix (True, ps))) = Inr (True, ps)"
  using assms
  by (simp add: resolved_def as_posix_def parse_as_posix expanduser_def resolve_def collapse_id)

lemma posix_of_idem:
  assumes "posix_of env v = Inr r"
  shows "posix_of env r = Inr r"
proof -
  from assms obtain p where p: "resolved env v = Inr p" and r: "r = PStr (as_posix p)"
    by (auto simp: posix_of_def split: sum.splits)
  from resolved_shape[OF p] obtain ps where ps: "p = (True, ps)" "clean ps" "''..'' \<notin> set ps"
    by auto
  show ?thesis
    using resolved_fixed[OF ps(2,3), of env] r ps(1) by (simp add: posix_of_def)
qed

section \<open>Path normalisation is idempotent\<close>

definition test_env :: env where
  "test_env =
     \<lparr> cwd = ''/work'',
       homedir = (\<lambda>u. if u = [] then Some ''/home/u'' else None),
       json_parse = (\<lambda>t. Inl ParseError),
       toml_parse = (\<lambda>t. Inl ParseError),
       load_key = (\<lambda>c. if c = [] then Inl KeyFileError else Inr c),
       decrypt = (\<lambda>k c. Inl DecryptionFailure),
       py_str = (\<lambda>v. case v of PStr s \<Rightarrow> s | PPath s \<Rightarrow> s | POpaque s \<Rightarrow> s | _ \<Rightarrow> []) \<rparr>"

text \<open>
  C8. Under a key that contains \<^verbatim>\<open>path\<close>, whenever normalising a value returns (it
  raises on a value that is neither a string nor a path, and on \<^verbatim>\<open>~user\<close> for an
  unknown user), the result is a string, and normalising that string returns the same
  string. The decode-time processor is the same function.
\<close>

theorem convert_path_idempotent:
  assumes "contains ''path'' key"
    and "convert_path env key v = Inr r"
  shows "(\<exists>s. r = PStr s) \<and> convert_path env key r = Inr r \<and> process env key r = Inr r"
proof -
  have once: "posix_of env v = Inr r"
    using assms by (simp add: convert_path_def)
  have twice: "posix_of env r = Inr r"
    using once by (rule posix_of_idem)
  have str: "\<exists>s. r = PStr s"
    using once by (auto simp: posix_of_def split: sum.splits)
  show ?thesis
    using assms(1) twice str by (simp add: convert_path_def process_def)
qed

theorem convert_path_idempotent_witness:
  "contains ''path'' ''key_path''
   \<and> convert_path test_env ''key_path'' (PStr ''~/a/./../keys//k'') = Inr (PStr ''/home/u/keys/k'')
   \<and> convert_path test_env ''key_path'' (PStr ''/home/u/keys/k'') = Inr (PStr ''/home/u/keys/k'')"
proof -
  have c: "contains ''path'' ''key_path''"
    by (simp add: startswith_def)
  have v: "convert_path test_env ''key_path'' (PStr ''~/a/./../keys//k'') = Inr (PStr ''/home/u/keys/k'')"
    by (simp add: convert_path_def posix_of_def resolved_def parse_path_def expanduser_def
        resolve_def as_posix_def startswith_def test_env_def)
  from convert_path_idempotent[OF c v] c v show ?thesis
    by simp
qed

section \<open>The base update routine\<close>

text \<open>
  C4. When \<^verbatim>\<open>BaseObject.update\<close> is called with a non-empty mapping and with keyword
  overrides, neither is stored: the attributes are unchanged. The call ends in
  \<^verbatim>\<open>AttributeError\<close>, raised by \<^verbatim>\<open>data.items()\<close> on the \<^verbatim>\<open>None\<close> that the in-place
  merge returned.
\<close>

theorem BaseObject_update_both_discarded:
  assumes "d \<noteq> []" and "kwargs \<noteq> []"
  shows "BaseObject_update env d kwargs attrs = (Some AttributeError, attrs)"
  using assms by (simp add: BaseObject_update_def)

theorem BaseObject_update_both_discarded_witness:
  "[(''foo'', PStr ''bar'')] \<noteq> [] \<and> [(''baz'', PStr ''fee'')] \<noteq> []
   \<and> BaseObject_update test_env [(''foo'', PStr ''bar'')] [(''baz'', PStr ''fee'')]
        [(''version'', PStr ''1.0.0'')]
      = (Some AttributeError, [(''version'', PStr ''1.0.0'')])"
  using BaseObject_update_both_discarded
    [of "[(''foo'', PStr ''bar'')]" "[(''baz'', PStr ''fee'')]" test_env
        "[(''version'', PStr ''1.0.0'')]"]
  by simp

section \<open>Updating a node without a callback\<close>

text \<open>
  C2. \<^verbatim>\<open>set_attr\<close> computes the normalised value and, without a \<^verbatim>\<open>processor_cb\<close>, stores
  the value it was given: \<^verbatim>\<open>update({"path": "~/p"})\<close> leaves \<^verbatim>\<open>~/p\<close> on the node, while
  path resolution of the same raw mapping gives \<^verbatim>\<open>/home/u/p\<close>.
\<close>

theorem update_stores_unnormalised_path:
  "BaseConfig_update test_env (Made ''Project'') (Some [(''path'', PStr ''~/p'')]) None [] []
     = (None, [(''path'', PStr ''~/p'')])
   \<and> path_resolve test_env [(''path'', PStr ''~/p'')] = Inr [(''path'', PStr ''/home/u/p'')]"
  by code_simp

section \<open>Restoring\<close>

definition store0 :: pydict where
  "store0 =
     [(''_save_path_'', PPath ''/s/config''), (''_key_path_'', PPath ''/s/secret.key''),
      (''key'', PStr ''value'')]"

text \<open>A file system with the data directory and nothing in it.\<close>

definition fs_empty :: filesystem where
  "fs_empty = (\<lambda>p. if p = ''/'' \<or> p = ''/s'' then Inr (Dir None) else Inl FileNotFoundError)"





lemma parse_posix_literals:
  "as_posix (parse_path ''/s/secret.key'') = ''/s/secret.key''"
  "as_posix (parse_path ''/s/config'') = ''/s/config''"
  by (simp_all add: as_posix_def parse_path_def startswith_def)







section \<open>Loading a file of an unsupported format\<close>

definition store1 :: pydict where
  "store1 =
     [(''_save_path_'', PPath ''/a/b/config''), (''_key_path_'', PPath ''/s/secret.key''),
      (''key'', PStr ''value'')]"

text \<open>A readable file \<^verbatim>\<open>/work/cfg.yaml\<close>, and the same file without read permission.\<close>

definition fs_yaml :: filesystem where
  "fs_yaml = fs_empty(''/work/cfg.yaml'' := Inr (File (Inr ''build: Debug'')))"

definition fs_yaml_locked :: filesystem where
  "fs_yaml_locked = fs_empty(''/work/cfg.yaml'' := Inr (File (Inl PermissionError)))"

lemma mkdir_keeps_nodes:
  assumes "mkdir_exist_ok fs q = Inr fs_made" and "fs x = Inr node"
  shows "fs_made x = Inr node"
proof -
  have "os_mkdir fs q = Inr fs_made \<or> fs_made = fs"
    using assms(1)
    by (auto simp: mkdir_exist_ok_def split: sum.splits if_splits)
  then show ?thesis
  proof
    assume "os_mkdir fs q = Inr fs_made"
    then show ?thesis
      using assms(2)
      by (auto simp: os_mkdir_def split: sum.splits if_splits fnode.splits option.splits)
  next
    assume "fs_made = fs"
    then show ?thesis using assms(2) by simp
  qed
qed

lemma yaml_literals:
  "as_posix (parse_path ''/work/cfg.yaml'') = ''/work/cfg.yaml''"
  "suffix (parse_path ''/work/cfg.yaml'') = ''.yaml''"
  "as_posix (parent (parse_path ''/a/b/config'')) = ''/a/b''"
  "as_posix (parent (parent (parse_path ''/a/b/config''))) = ''/a''"
  "as_posix (parent (parse_path ''/s/config'')) = ''/s''"
  by (simp_all add: as_posix_def parse_path_def startswith_def suffix_def parent_def)

text \<open>
  C6, as stated, fails in two ways, both before the extension of the existing file
  \<^verbatim>\<open>/work/cfg.yaml\<close> is looked at. For a store whose save target lies in a directory
  that cannot be created, \<^verbatim>\<open>self._save_path_.parent.mkdir(exist_ok=True)\<close> raises
  \<^verbatim>\<open>FileNotFoundError\<close> when \<^verbatim>\<open>/a\<close> is missing. For a file that may not be read,
  \<^verbatim>\<open>open(p, "r")\<close> raises \<^verbatim>\<open>PermissionError\<close>.
\<close>

theorem load_unsupported_counterexample:
  "fs_yaml (as_posix (parse_path ''/work/cfg.yaml'')) = Inr (File (Inr ''build: Debug''))
   \<and> suffix (parse_path ''/work/cfg.yaml'') = ''.yaml''
   \<and> load test_env fs_yaml (PStr ''/work/cfg.yaml'') store1
       = (Some FileNotFoundError, fs_yaml, store1)
   \<and> load test_env fs_yaml_locked (PStr ''/work/cfg.yaml'') store0
       = (Some PermissionError, fs_yaml_locked, store0)"
  by (simp add: yaml_literals load_def the_path_def mkdir_exist_ok_def os_mkdir_def is_dir_def
      exists_and_is_file_def path_exists_def is_file_def read_file_def
      store1_def store0_def fs_yaml_def fs_yaml_locked_def fs_empty_def)

text \<open>
  C6, amended. If the directory of the save target exists or can be created, then for
  every existing regular file that can be opened for reading and whose extension is
  neither \<^verbatim>\<open>.json\<close> nor \<^verbatim>\<open>.toml\<close>, \<^verbatim>\<open>load\<close> raises \<^verbatim>\<open>NotImplementedError\<close> and leaves
  every attribute of the store, the cached mapping among them, as it was.
\<close>

theorem load_unsupported_format:
  assumes "map_of self ''_save_path_'' = Some (PPath ss)"
    and "mkdir_exist_ok fs (parent (parse_path ss)) = Inr fs_made"
    and "Path load_path = Inr p"
    and "fs (as_posix p) = Inr (File (Inr content))"
    and "suffix p \<noteq> ''.json''" and "suffix p \<noteq> ''.toml''"
  shows "load env fs load_path self = (Some NotImplementedError, fs_made, self)"
proof -
  have there: "fs_made (as_posix p) = Inr (File (Inr content))"
    using assms(2,4) by (rule mkdir_keeps_nodes)
  show ?thesis
    using assms there
    by (simp add: load_def the_path_def exists_and_is_file_def path_exists_def is_file_def
        read_file_def)
qed

theorem load_unsupported_format_witness:
  "map_of store0 ''_save_path_'' = Some (PPath ''/s/config'')
   \<and> mkdir_exist_ok fs_yaml (parent (parse_path ''/s/config'')) = Inr fs_yaml
   \<and> Path (PStr ''/work/cfg.yaml'') = Inr (parse_path ''/work/cfg.yaml'')
   \<and> fs_yaml (as_posix (parse_path ''/work/cfg.yaml'')) = Inr (File (Inr ''build: Debug''))
   \<and> suffix (parse_path ''/work/cfg.yaml'') \<noteq> ''.json''
   \<and> suffix (parse_path ''/work/cfg.yaml'') \<noteq> ''.toml''
   \<and> load test_env fs_yaml (PStr ''/work/cfg.yaml'') store0
       = (Some NotImplementedError, fs_yaml, store0)"
proof -
  have s: "map_of store0 ''_save_path_'' = Some (PPath ''/s/config'')"
    by (simp add: store0_def)
  have m: "mkdir_exist_ok fs_yaml (parent (parse_path ''/s/config'')) = Inr fs_yaml"
    by (simp add: mkdir_exist_ok_def os_mkdir_def is_dir_def yaml_literals fs_yaml_def
        fs_empty_def)
  have p: "Path (PStr ''/work/cfg.yaml'') = Inr (parse_path ''/work/cfg.yaml'')"
    by simp
  have f: "fs_yaml (as_posix (parse_path ''/work/cfg.yaml'')) = Inr (File (Inr ''build: Debug''))"
    by (simp add: yaml_literals fs_yaml_def)
  have j: "suffix (parse_path ''/work/cfg.yaml'') \<noteq> ''.json''"
    and t: "suffix (parse_path ''/work/cfg.yaml'') \<noteq> ''.toml''"
    by (simp_all add: yaml_literals)
  from load_unsupported_format
         [where self = store0 and fs = fs_yaml and env = test_env and ss = "''/s/config''"
            and load_path = "PStr ''/work/cfg.yaml''" and fs_made = fs_yaml
            and p = "parse_path ''/work/cfg.yaml''" and content = "''build: Debug''"]
       s m p f j t
  show ?thesis
    by simp
qed

section \<open>Facts about dictionaries and members\<close>

lemma keys_dict_set: "fst ` set (dict_set k v d) = insert k (fst ` set d)"
proof (induction d)
  case Nil
  then show ?case by simp
next
  case (Cons a d)
  show ?case
  proof (cases "fst a = k")
    case True
    then show ?thesis by (cases a) auto
  next
    case False
    then show ?thesis using Cons.IH by (cases a) auto
  qed
qed

lemma dict_set_member: "(k, v) \<in> set (dict_set k v d)"
  by (induction d) auto

lemma distinct_dict_set: "distinct (map fst d) \<Longrightarrow> distinct (map fst (dict_set k v d))"
  by (induction d) (auto simp: keys_dict_set)


lemma dict_set_fresh: "k \<notin> fst ` set d \<Longrightarrow> dict_set k v d = d @ [(k, v)]"
  by (induction d) auto

lemma dict_set_other:
  "k' \<noteq> k \<Longrightarrow> ((k', v') \<in> set (dict_set k v d)) = ((k', v') \<in> set d)"
  by (induction d) (auto split: if_splits)

lemma keys_dict_of: "fst ` set (dict_of kvs d) = fst ` set kvs \<union> fst ` set d"
proof (induction kvs arbitrary: d)
  case Nil
  then show ?case by (simp add: dict_of_def)
next
  case (Cons kv kvs)
  have "dict_of (kv # kvs) d = dict_of kvs (dict_set (fst kv) (snd kv) d)"
    by (simp add: dict_of_def)
  then show ?case
    using Cons.IH[of "dict_set (fst kv) (snd kv) d"] by (auto simp: keys_dict_set)
qed

lemma distinct_dict_of: "distinct (map fst d) \<Longrightarrow> distinct (map fst (dict_of kvs d))"
proof (induction kvs arbitrary: d)
  case Nil
  then show ?case by (simp add: dict_of_def)
next
  case (Cons kv kvs)
  have "dict_of (kv # kvs) d = dict_of kvs (dict_set (fst kv) (snd kv) d)"
    by (simp add: dict_of_def)
  then show ?case
    using Cons.IH[of "dict_set (fst kv) (snd kv) d"] Cons.prems
    by (simp add: distinct_dict_set)
qed

lemma dict_of_fresh:
  "distinct (map fst kvs) \<Longrightarrow> fst ` set kvs \<inter> fst ` set d = {} \<Longrightarrow> dict_of kvs d = d @ kvs"
proof (induction kvs arbitrary: d)
  case Nil
  then show ?case by (simp add: dict_of_def)
next
  case (Cons kv kvs)
  have step: "dict_of (kv # kvs) d = dict_of kvs (dict_set (fst kv) (snd kv) d)"
    by (simp add: dict_of_def)
  have fresh: "dict_set (fst kv) (snd kv) d = d @ [kv]"
    using Cons.prems(2) by (simp add: dict_set_fresh)
  have "dict_of kvs (d @ [kv]) = (d @ [kv]) @ kvs"
    using Cons.prems by (intro Cons.IH) auto
  then show ?case
    using step fresh by simp
qed


lemma distinct_sort_key: "distinct (map f (sort_key f xs)) = distinct (map f xs)"
  by (induction xs) (auto simp: distinct_insort_key)

lemma distinct_special: "distinct (map fst special_members)"
  by (simp add: special_members_def)

lemma distinct_with_property:
  "distinct (map fst m) \<Longrightarrow> distinct (map fst (with_property name got m))"
  by (cases got) (simp_all add: with_property_def dict_del_def distinct_dict_set distinct_map_filter)

lemma distinct_members: "distinct (map fst (members c attrs))"
  by (cases c)
     (simp_all add: members_def distinct_with_property distinct_dict_of distinct_special)

lemma distinct_getmembers: "distinct (map fst (getmembers c attrs))"
  by (simp add: getmembers_def distinct_sort_key distinct_members)

lemma process_cls_members:
  "process_cls env (PObj c attrs) =
     PDict (map (\<lambda>kv. (fst kv, if has_dict (snd kv) then process_cls env (snd kv) else snd kv))
              (filter (\<lambda>a. \<not> private_name (fst a)) (getmembers c attrs)))"
proof -
  let ?f = "\<lambda>kv. (fst kv, if has_dict (snd kv) then process_cls env (snd kv) else snd kv)"
  let ?ms = "filter (\<lambda>a. \<not> private_name (fst a)) (getmembers c attrs)"
  have same: "fst \<circ> ?f = fst"
    by (simp add: comp_def)
  have "distinct (map fst ?ms)"
    using distinct_getmembers[of c attrs] by (rule distinct_map_filter)
  then have "distinct (map fst (map ?f ?ms))"
    by (simp add: same)
  then have "dict_of (map ?f ?ms) [] = [] @ map ?f ?ms"
    by (intro dict_of_fresh) simp_all
  then show ?thesis
    by simp
qed


declare process_cls.simps(1) [simp del]


lemma with_property_other:
  "k \<noteq> name \<Longrightarrow> ((k, v) \<in> set (with_property name got m)) = ((k, v) \<in> set m)"
  by (cases got) (auto simp: with_property_def dict_del_def dict_set_other)


lemma public_member_encoded:
  assumes "(k, v) \<in> set (members c attrs)" and "\<not> private_name k" and "\<not> has_dict v"
  shows "\<exists>out. process_cls env (PObj c attrs) = PDict out \<and> map_of out k = Some v"
proof -
  let ?f = "\<lambda>kv. (fst kv, if has_dict (snd kv) then process_cls env (snd kv) else snd kv)"
  let ?ms = "filter (\<lambda>a. \<not> private_name (fst a)) (getmembers c attrs)"
  have same: "fst \<circ> ?f = fst"
    by (simp add: comp_def)
  have "distinct (map fst ?ms)"
    using distinct_getmembers[of c attrs] by (rule distinct_map_filter)
  then have d: "distinct (map fst (map ?f ?ms))"
    by (simp add: same)
  have "(k, v) \<in> set ?ms"
    using assms(1,2) by (simp add: getmembers_def)
  then have "?f (k, v) \<in> ?f ` set ?ms"
    by (rule imageI)
  then have "(k, v) \<in> set (map ?f ?ms)"
    using assms(3) by simp
  then have "map_of (map ?f ?ms) k = Some v"
    using d by simp
  then show ?thesis
    by (simp add: process_cls_members)
qed

section \<open>What the encoder does with other values\<close>





section \<open>What the encoder leaves out\<close>

definition store2 :: pydict where
  "store2 =
     [(''_save_path_'', PPath ''/s/config''), (''_key_path_'', PPath ''/s/secret.key''),
      (''_converted_'', PDict [(''build'', PObj (Made ''Build'') [(''type'', PStr ''Debug'')])]),
      (''build'', PObj (Made ''Build'') [(''type'', PStr ''Debug'')])]"

text \<open>
  C3, as stated, fails on the store: the private attributes are left out, but
  \<^verbatim>\<open>getmembers\<close> also lists the properties \<^verbatim>\<open>save_path\<close> and \<^verbatim>\<open>key_path\<close> of
  \<^verbatim>\<open>Config\<close>, whose names are public, so the save target and the key file path are
  part of the encoded mapping.
\<close>

theorem store_paths_encoded_counterexample:
  "process_cls test_env (PObj ConfigClass store2)
     = PDict [(''build'', PDict [(''type'', PStr ''Debug'')]),
              (''key_path'', PStr ''/s/secret.key''), (''save_path'', PStr ''/s/config'')]"
  by code_simp

lemma private_literals:
  "private_name ''_save_path_''" "private_name ''_key_path_''" "private_name ''_converted_''"
  "\<not> private_name ''save_path''" "\<not> private_name ''key_path''"
  by (simp_all add: private_name_def startswith_def endswith_def)

lemma property_members:
  assumes "map_of attrs ''_save_path_'' = Some (PPath s)"
  shows "(''save_path'', PStr (as_posix (parse_path s))) \<in> set (members ConfigClass attrs)"
proof -
  have "path_property attrs ''_save_path_'' = Some (PStr (as_posix (parse_path s)))"
    using assms by (simp add: path_property_def)
  then show ?thesis
    by (simp add: members_def with_property_other) (simp add: with_property_def dict_set_member)
qed

lemma property_members_key:
  assumes "map_of attrs ''_key_path_'' = Some (PPath s)"
  shows "(''key_path'', PStr (as_posix (parse_path s))) \<in> set (members ConfigClass attrs)"
proof -
  have "path_property attrs ''_key_path_'' = Some (PStr (as_posix (parse_path s)))"
    using assms by (simp add: path_property_def)
  then show ?thesis
    by (simp add: members_def with_property_def dict_set_member)
qed

text \<open>
  C3, amended. A member that \<^verbatim>\<open>getmembers\<close> lists is left out of the encoded mapping if
  and only if its name starts and ends with an underscore. So the attributes
  \<^verbatim>\<open>_save_path_\<close>, \<^verbatim>\<open>_key_path_\<close> and \<^verbatim>\<open>_converted_\<close> never appear; the paths held by
  the first two do appear on a store, under the property names \<^verbatim>\<open>save_path\<close> and
  \<^verbatim>\<open>key_path\<close>.
\<close>

theorem process_cls_exclusion:
  "\<exists>out. process_cls env (PObj c attrs) = PDict out
     \<and> (\<forall>k. (k \<in> fst ` set out) = (k \<in> fst ` set (getmembers c attrs) \<and> \<not> private_name k))
     \<and> ''_save_path_'' \<notin> fst ` set out \<and> ''_key_path_'' \<notin> fst ` set out
     \<and> ''_converted_'' \<notin> fst ` set out
     \<and> (c = ConfigClass \<longrightarrow>
          (\<forall>s. map_of attrs ''_save_path_'' = Some (PPath s)
               \<longrightarrow> map_of out ''save_path'' = Some (PStr (as_posix (parse_path s))))
          \<and> (\<forall>s. map_of attrs ''_key_path_'' = Some (PPath s)
               \<longrightarrow> map_of out ''key_path'' = Some (PStr (as_posix (parse_path s)))))"
proof -
  let ?f = "\<lambda>kv. (fst kv, if has_dict (snd kv) then process_cls env (snd kv) else snd kv)"
  let ?ms = "filter (\<lambda>a. \<not> private_name (fst a)) (getmembers c attrs)"
  let ?out = "map ?f ?ms"
  have out: "process_cls env (PObj c attrs) = PDict ?out"
    by (rule process_cls_members)
  have same: "fst \<circ> ?f = fst"
    by (simp add: comp_def)
  have "fst ` set ?out = fst ` set ?ms"
    by (simp add: image_comp same)
  then have keys: "\<forall>k. (k \<in> fst ` set ?out) = (k \<in> fst ` set (getmembers c attrs) \<and> \<not> private_name k)"
    by auto
  have priv: "''_save_path_'' \<notin> fst ` set ?out" "''_key_path_'' \<notin> fst ` set ?out"
    "''_converted_'' \<notin> fst ` set ?out"
    using keys by (simp_all add: private_literals)
  have look: "\<And>k v. (k, v) \<in> set (members c attrs) \<Longrightarrow> \<not> private_name k \<Longrightarrow> \<not> has_dict v
      \<Longrightarrow> map_of ?out k = Some v"
  proof -
    fix k v
    assume "(k, v) \<in> set (members c attrs)" and "\<not> private_name k" and "\<not> has_dict v"
    from public_member_encoded[OF this, of env] out show "map_of ?out k = Some v"
      by auto
  qed
  have props: "c = ConfigClass \<longrightarrow>
          (\<forall>s. map_of attrs ''_save_path_'' = Some (PPath s)
               \<longrightarrow> map_of ?out ''save_path'' = Some (PStr (as_posix (parse_path s))))
          \<and> (\<forall>s. map_of attrs ''_key_path_'' = Some (PPath s)
               \<longrightarrow> map_of ?out ''key_path'' = Some (PStr (as_posix (parse_path s))))"
    using look property_members property_members_key
    by (auto simp: private_literals has_dict_def)
  show ?thesis
    using out keys priv props by blast
qed

theorem process_cls_exclusion_witness:
  "\<exists>out. process_cls test_env (PObj ConfigClass store2) = PDict out
     \<and> ''_save_path_'' \<notin> fst ` set out \<and> ''_key_path_'' \<notin> fst ` set out
     \<and> ''_converted_'' \<notin> fst ` set out
     \<and> map_of out ''save_path'' = Some (PStr ''/s/config'')
     \<and> map_of out ''key_path'' = Some (PStr ''/s/secret.key'')"
proof -
  have s: "map_of store2 ''_save_path_'' = Some (PPath ''/s/config'')"
    and k: "map_of store2 ''_key_path_'' = Some (PPath ''/s/secret.key'')"
    by (simp_all add: store2_def)
  from process_cls_exclusion[of test_env ConfigClass store2] s k show ?thesis
    by (auto simp: parse_posix_literals)
qed

section \<open>Facts about the decoder\<close>


















section \<open>Sequences in a decoded mapping\<close>






section \<open>The round trip\<close>

text \<open>
  A raw mapping of JSON values, with the keys of every table distinct, in which no key
  that contains \<^verbatim>\<open>path\<close> holds a table and no key has the form of a special name
  (\<^verbatim>\<open>__init__\<close> and the like), which the model of \<^verbatim>\<open>type()\<close> does not cover.
\<close>

definition special_name :: "string \<Rightarrow> bool" where
  "special_name a = (startswith ''__'' a \<and> endswith ''__'' a)"

fun tidy :: "pydict \<Rightarrow> bool" where
  "tidy [] = True"
| "tidy ((k, v) # kvs) =
     (k \<notin> fst ` set kvs \<and> \<not> special_name k
      \<and> (case v of PDict d \<Rightarrow> \<not> contains ''path'' k \<and> tidy d | _ \<Rightarrow> json_ok v)
      \<and> tidy kvs)"

text \<open>
  What path resolution returns on such a mapping: every value that is not a table is
  left alone by \<^verbatim>\<open>convert_path\<close>.
\<close>

fun settled :: "env \<Rightarrow> pydict \<Rightarrow> bool" where
  "settled env [] = True"
| "settled env ((k, v) # kvs) =
     (k \<notin> fst ` set kvs
      \<and> (case v of
            PDict d \<Rightarrow> \<not> contains ''path'' k \<and> settled env d
          | _ \<Rightarrow> \<not> has_dict v \<and> convert_path env k v = Inr v)
      \<and> settled env kvs)"

text \<open>The attributes that the decoder builds from a resolved mapping.\<close>

fun packed :: "pydict \<Rightarrow> pydict" where
  "packed [] = []"
| "packed ((k, v) # kvs) =
     (k, case v of PDict d \<Rightarrow> PObj (Made (capitalize k)) (packed d) | _ \<Rightarrow> v) # packed kvs"

text \<open>
  The encoded form that the round trip is to give: the mapping itself, attribute for
  attribute, without the attributes of a private name in any table; the encoder lists
  the members sorted by name.
\<close>

fun expected_items :: "pydict \<Rightarrow> pydict" where
  "expected_items [] = []"
| "expected_items ((k, v) # kvs) =
     (k, case v of
           PDict d \<Rightarrow> PDict (sort_key fst (filter (\<lambda>a. \<not> private_name (fst a)) (expected_items d)))
         | _ \<Rightarrow> v) # expected_items kvs"

definition expected :: "pydict \<Rightarrow> pyval" where
  "expected d = PDict (sort_key fst (filter (\<lambda>a. \<not> private_name (fst a)) (expected_items d)))"

lemma filter_public_dict_set_private:
  "private_name k \<Longrightarrow> filter (\<lambda>a. \<not> private_name (fst a)) (dict_set k v d)
     = filter (\<lambda>a. \<not> private_name (fst a)) d"
  by (induction d) auto

lemma filter_public_dict_of:
  assumes "distinct (map fst kvs)"
    and "\<forall>k \<in> fst ` set kvs. \<not> private_name k \<longrightarrow> k \<notin> fst ` set d"
  shows "filter (\<lambda>a. \<not> private_name (fst a)) (dict_of kvs d)
     = filter (\<lambda>a. \<not> private_name (fst a)) d @ filter (\<lambda>a. \<not> private_name (fst a)) kvs"
  using assms
proof (induction kvs arbitrary: d)
  case Nil
  then show ?case by (simp add: dict_of_def)
next
  case (Cons kv kvs)
  obtain k v where kv: "kv = (k, v)" by (cases kv)
  have step: "dict_of (kv # kvs) d = dict_of kvs (dict_set k v d)"
    by (simp add: dict_of_def kv)
  have side: "\<forall>k' \<in> fst ` set kvs. \<not> private_name k' \<longrightarrow> k' \<notin> fst ` set (dict_set k v d)"
    using Cons.prems kv by (auto simp: keys_dict_set)
  have ih: "filter (\<lambda>a. \<not> private_name (fst a)) (dict_of kvs (dict_set k v d))
     = filter (\<lambda>a. \<not> private_name (fst a)) (dict_set k v d)
       @ filter (\<lambda>a. \<not> private_name (fst a)) kvs"
    using Cons.prems(1) side by (intro Cons.IH) auto
  show ?case
  proof (cases "private_name k")
    case True
    then show ?thesis
      using ih step kv by (simp add: filter_public_dict_set_private)
  next
    case False
    then have "k \<notin> fst ` set d"
      using Cons.prems(2) kv by auto
    then have "dict_set k v d = d @ [(k, v)]"
      by (rule dict_set_fresh)
    then show ?thesis
      using ih step kv False by simp
  qed
qed

lemma public_getmembers_Made:
  assumes "distinct (map fst attrs)"
  shows "filter (\<lambda>a. \<not> private_name (fst a)) (getmembers (Made n) attrs)
     = sort_key fst (filter (\<lambda>a. \<not> private_name (fst a)) attrs)"
proof -
  have "\<forall>k \<in> fst ` set attrs. \<not> private_name k \<longrightarrow> k \<notin> fst ` set special_members"
    by (auto simp: special_members_def private_name_def startswith_def endswith_def)
  from filter_public_dict_of[OF assms this]
  have "filter (\<lambda>a. \<not> private_name (fst a)) (dict_of attrs special_members)
     = filter (\<lambda>a. \<not> private_name (fst a)) attrs"
    by (simp add: special_members_def private_name_def startswith_def endswith_def)
  then show ?thesis
    by (simp add: getmembers_def members_def filter_sort)
qed

lemma map_insort_key:
  assumes "\<And>y. fst (f y) = fst y"
  shows "map f (insort_key fst x xs) = insort_key fst (f x) (map f xs)"
  by (induction xs) (simp_all add: assms)

lemma map_sort_key:
  assumes "\<And>y. fst (f y) = fst y"
  shows "map f (sort_key fst xs) = sort_key fst (map f xs)"
  by (induction xs) (simp_all add: map_insort_key[OF assms])


lemma convert_settles:
  assumes "json_ok v" and "convert_path env k v = Inr v1"
  shows "(\<forall>d. v1 \<noteq> PDict d \<or> (\<exists>d'. v = PDict d')) \<and> \<not> has_dict v1
         \<and> convert_path env k v1 = Inr v1"
proof (cases "contains ''path'' k")
  case True
  then have once: "posix_of env v = Inr v1"
    using assms(2) by (simp add: convert_path_def)
  then have "posix_of env v1 = Inr v1"
    by (rule posix_of_idem)
  moreover have "\<exists>s. v1 = PStr s"
    using once by (auto simp: posix_of_def split: sum.splits)
  ultimately show ?thesis
    using True by (auto simp: convert_path_def has_dict_def)
next
  case False
  then have "v1 = v"
    using assms(2) by (simp add: convert_path_def)
  then show ?thesis
    using False assms(1) by (cases v) (auto simp: convert_path_def has_dict_def)
qed

lemma settled_entry:
  "\<forall>d. v1 \<noteq> PDict d \<Longrightarrow>
   (case v1 of PDict d \<Rightarrow> P d | _ \<Rightarrow> Q) = Q"
  by (cases v1) simp_all

lemma path_resolve_items_settles:
  "tidy d \<Longrightarrow> path_resolve_items env d acc = Inr r \<Longrightarrow> fst ` set d \<inter> fst ` set acc = {}
   \<Longrightarrow> \<exists>r'. r = acc @ r' \<and> map fst r' = map fst d \<and> settled env r'"
proof (induction env d acc arbitrary: r rule: path_resolve_items.induct)
  case (1 env rv)
  then show ?case by simp
next
  case (2 env k v kvs rv)
  let ?conv = "case v of
      PDict d \<Rightarrow> (case path_resolve_items env d [] of Inl e \<Rightarrow> Inl e | Inr r \<Rightarrow> Inr (PDict r))
    | _ \<Rightarrow> convert_path env k v"
  from "2.prems"(2) obtain v1 where conv: "?conv = Inr v1"
    and rest: "path_resolve_items env kvs (dict_set k v1 rv) = Inr r"
    by (auto split: sum.splits)
  have fresh: "k \<notin> fst ` set rv" and knew: "k \<notin> fst ` set kvs" and tk: "tidy kvs"
    using "2.prems"(1,3) by auto
  have set1: "dict_set k v1 rv = rv @ [(k, v1)]"
    using fresh by (rule dict_set_fresh)
  have disj: "fst ` set kvs \<inter> fst ` set (dict_set k v1 rv) = {}"
    using "2.prems"(3) knew by (auto simp: keys_dict_set)
  from "2.IH"(2)[OF conv tk rest disj] obtain r' where
    r': "r = dict_set k v1 rv @ r'" "map fst r' = map fst kvs" "settled env r'"
    by auto
  have entry: "case v1 of
        PDict d \<Rightarrow> \<not> contains ''path'' k \<and> settled env d
      | _ \<Rightarrow> \<not> has_dict v1 \<and> convert_path env k v1 = Inr v1"
  proof (cases "\<exists>m. v = PDict m")
    case True
    then obtain m where m: "v = PDict m" by auto
    from conv m obtain m' where m': "path_resolve_items env m [] = Inr m'" "v1 = PDict m'"
      by (auto split: sum.splits)
    have "tidy m" and np: "\<not> contains ''path'' k"
      using "2.prems"(1) m by auto
    from "2.IH"(1)[OF m this(1) m'(1)] have "settled env m'"
      by auto
    then show ?thesis
      using m'(2) np by simp
  next
    case False
    then have j: "json_ok v" and c: "convert_path env k v = Inr v1"
      using "2.prems"(1) conv by (cases v; simp)+
    from convert_settles[OF j c] False
    have "\<forall>d. v1 \<noteq> PDict d" "\<not> has_dict v1 \<and> convert_path env k v1 = Inr v1"
      by auto
    then show ?thesis
      by (simp add: settled_entry)
  qed
  have "k \<notin> fst ` set r'"
    using r'(2) knew by (metis set_map)
  then have "settled env ((k, v1) # r')"
    using entry r'(3) by simp
  moreover have "r = rv @ ((k, v1) # r')"
    using r'(1) set1 by simp
  moreover have "map fst ((k, v1) # r') = map fst ((k, v) # kvs)"
    using r'(2) by simp
  ultimately show ?case
    by blast
qed

lemma keys_packed: "map fst (packed d) = map fst d"
  by (induction d rule: packed.induct) simp_all

lemma settled_distinct: "settled env d \<Longrightarrow> distinct (map fst d)"
proof (induction d)
  case Nil
  then show ?case by simp
next
  case (Cons kv d)
  obtain k v where kv: "kv = (k, v)" by (cases kv)
  from Cons.prems kv have "k \<notin> fst ` set d" and "settled env d"
    by simp_all
  then show ?case
    using Cons.IH kv by simp
qed

lemma pack_items_settled:
  "settled env d \<Longrightarrow> fst ` set d \<inter> fst ` set acc = {}
   \<Longrightarrow> pack_items (ConfigDecoder env) d acc = Inr (acc @ packed d)"
proof (induction env d arbitrary: acc rule: settled.induct)
  case (1 env)
  then show ?case by simp
next
  case (2 env k v kvs)
  have fresh: "k \<notin> fst ` set acc" and knew: "k \<notin> fst ` set kvs" and sk: "settled env kvs"
    using "2.prems" by auto
  let ?v1 = "case v of PDict d \<Rightarrow> PObj (Made (capitalize k)) (packed d) | _ \<Rightarrow> v"
  have first: "(case v of
        PDict d \<Rightarrow> (case pack_items (ConfigDecoder env) d [] of Inl e \<Rightarrow> Inl e
                     | Inr a \<Rightarrow> new_instance (bases (ConfigDecoder env)) (capitalize k) a)
      | _ \<Rightarrow> Inr v) = Inr ?v1"
  proof (cases v)
    case (PDict m)
    then have "settled env m"
      using "2.prems"(1) by simp
    from "2.IH"(1)[OF PDict this, of "[]"] have "pack_items (ConfigDecoder env) m [] = Inr (packed m)"
      by simp
    then show ?thesis using PDict by (simp add: new_instance_def ConfigDecoder_def)
  qed simp_all
  have proc: "processor (ConfigDecoder env) k ?v1 = Inr ?v1"
    using "2.prems"(1) by (cases v) (auto simp: ConfigDecoder_def process_def convert_path_def)
  have set1: "dict_set k ?v1 acc = acc @ [(k, ?v1)]"
    using fresh by (rule dict_set_fresh)
  have disj: "fst ` set kvs \<inter> fst ` set (acc @ [(k, ?v1)]) = {}"
    using "2.prems"(2) knew by auto
  have "pack_items (ConfigDecoder env) kvs (acc @ [(k, ?v1)]) = Inr ((acc @ [(k, ?v1)]) @ packed kvs)"
    using sk disj "2.IH"(2) knew by blast
  then show ?case
    using first proc set1 by simp
qed


lemma process_cls_Made:
  assumes "distinct (map fst attrs)"
  shows "process_cls env (PObj (Made n) attrs) =
     PDict (sort_key fst (filter (\<lambda>a. \<not> private_name (fst a))
       (map (\<lambda>kv. (fst kv, if has_dict (snd kv) then process_cls env (snd kv) else snd kv))
          attrs)))"
proof -
  let ?g = "\<lambda>kv. (fst kv, if has_dict (snd kv) then process_cls env (snd kv) else snd kv)"
  have key: "\<And>y. fst (?g y) = fst y"
    by simp
  have same: "(\<lambda>a. \<not> private_name (fst a)) \<circ> ?g = (\<lambda>a. \<not> private_name (fst a))"
    by (simp add: comp_def)
  have "process_cls env (PObj (Made n) attrs)
      = PDict (map ?g (sort_key fst (filter (\<lambda>a. \<not> private_name (fst a)) attrs)))"
    by (simp only: process_cls_members public_getmembers_Made[OF assms])
  also have "map ?g (sort_key fst (filter (\<lambda>a. \<not> private_name (fst a)) attrs))
      = sort_key fst (map ?g (filter (\<lambda>a. \<not> private_name (fst a)) attrs))"
    by (rule map_sort_key[of ?g, OF key])
  also have "map ?g (filter (\<lambda>a. \<not> private_name (fst a)) attrs)
      = filter (\<lambda>a. \<not> private_name (fst a)) (map ?g attrs)"
    by (simp only: filter_map same)
  finally show ?thesis .
qed

lemma encoded_packed_items:
  "settled env d \<Longrightarrow>
   map (\<lambda>kv. (fst kv, if has_dict (snd kv) then process_cls env (snd kv) else snd kv)) (packed d)
     = expected_items d"
proof (induction env d rule: settled.induct)
  case (1 env)
  then show ?case by simp
next
  case (2 env k v kvs)
  have sk: "settled env kvs"
    using "2.prems" by simp
  have tail: "map (\<lambda>kv. (fst kv, if has_dict (snd kv) then process_cls env (snd kv) else snd kv))
      (packed kvs) = expected_items kvs"
    using "2.IH"(2) "2.prems" by simp
  show ?case
  proof (cases v)
    case (PDict m)
    then have sm: "settled env m"
      using "2.prems" by simp
    have dm: "distinct (map fst (packed m))"
      using settled_distinct[OF sm] by (simp add: keys_packed)
    have "process_cls env (PObj (Made (capitalize k)) (packed m))
        = PDict (sort_key fst (filter (\<lambda>a. \<not> private_name (fst a)) (expected_items m)))"
      using "2.IH"(1)[OF PDict sm] by (simp add: process_cls_Made[OF dm])
    then show ?thesis
      using PDict tail by (simp add: has_dict_def)
  next
    case (PObj c a)
    then show ?thesis using "2.prems" by (simp add: has_dict_def)
  qed (use tail in \<open>simp_all add: has_dict_def\<close>)
qed

lemma tidy_json_ok: "tidy d \<Longrightarrow> json_ok_items d"
proof (induction d rule: tidy.induct)
  case 1
  then show ?case by simp
next
  case (2 k v kvs)
  then show ?case by (cases v) auto
qed

text \<open>
  Away from tables under a key that contains \<^verbatim>\<open>path\<close>, and wherever path resolution
  itself returns (it raises on a value under such a key that is neither a string nor a
  table), the round trip holds: the resolved mapping is decoded, and the encoder gives
  it back.
\<close>

lemma roundtrip_without_path_tables:
  assumes "tidy M" and "path_resolve env M = Inr N"
  shows "json_ok (PDict M)
     \<and> pack_dict (ConfigDecoder env) N cname = Inr (PObj (Made (capitalize cname)) (packed N))
     \<and> process_cls env (PObj (Made (capitalize cname)) (packed N)) = expected N"
proof -
  from path_resolve_items_settles[OF assms(1), of env "[]" N] assms(2)
  have s: "settled env N"
    by (auto simp: path_resolve_def)
  have "pack_items (ConfigDecoder env) N [] = Inr ([] @ packed N)"
    using s by (intro pack_items_settled) simp_all
  then have p: "pack_dict (ConfigDecoder env) N cname = Inr (PObj (Made (capitalize cname)) (packed N))"
    by (simp add: pack_dict_def new_instance_def ConfigDecoder_def)
  have d: "distinct (map fst (packed N))"
    using settled_distinct[OF s] by (simp add: keys_packed)
  have e: "process_cls env (PObj (Made (capitalize cname)) (packed N)) = expected N"
    by (simp add: process_cls_Made[OF d] encoded_packed_items[OF s] expected_def)
  show ?thesis
    using p e tidy_json_ok[OF assms(1)] by simp
qed

definition project :: pydict where
  "project =
     [(''project'', PDict [(''path'', PStr ''~/p''), (''name'', PStr ''X''), (''_tmp_'', PInt 1)]),
      (''build'', PDict [(''type'', PStr ''Debug'')])]"

lemma roundtrip_without_path_tables_example:
  "tidy project
   \<and> path_resolve test_env project
       = Inr [(''project'', PDict [(''path'', PStr ''/home/u/p''), (''name'', PStr ''X''),
                                   (''_tmp_'', PInt 1)]),
              (''build'', PDict [(''type'', PStr ''Debug'')])]
   \<and> (\<exists>obj. pack_dict (ConfigDecoder test_env)
                [(''project'', PDict [(''path'', PStr ''/home/u/p''), (''name'', PStr ''X''),
                                      (''_tmp_'', PInt 1)]),
                 (''build'', PDict [(''type'', PStr ''Debug'')])] ''root'' = Inr obj
        \<and> process_cls test_env obj
          = PDict [(''build'', PDict [(''type'', PStr ''Debug'')]),
                   (''project'', PDict [(''name'', PStr ''X''), (''path'', PStr ''/home/u/p'')])])"
proof -
  have t: "tidy project"
    by (simp add: project_def startswith_def special_name_def)
  have n: "path_resolve test_env project
       = Inr [(''project'', PDict [(''path'', PStr ''/home/u/p''), (''name'', PStr ''X''),
                                   (''_tmp_'', PInt 1)]),
              (''build'', PDict [(''type'', PStr ''Debug'')])]"
    by code_simp
  have e: "expected [(''project'', PDict [(''path'', PStr ''/home/u/p''), (''name'', PStr ''X''),
                                   (''_tmp_'', PInt 1)]),
              (''build'', PDict [(''type'', PStr ''Debug'')])]
          = PDict [(''build'', PDict [(''type'', PStr ''Debug'')]),
                   (''project'', PDict [(''name'', PStr ''X''), (''path'', PStr ''/home/u/p'')])]"
    by code_simp
  from roundtrip_without_path_tables[OF t n, of "''root''"] t n e show ?thesis
    by simp
qed

definition raw_paths :: pydict where
  "raw_paths = [(''paths'', PDict [(''data'', PStr ''/srv/data'')])]"

definition env_cfg :: env where
  "env_cfg = test_env\<lparr>json_parse :=
      (\<lambda>t. if t = ''paths-table'' then Inr (PDict raw_paths) else Inl ParseError)\<rparr>"

definition fs_cfg :: filesystem where
  "fs_cfg = fs_empty(''/work/cfg.json'' := Inr (File (Inr ''paths-table'')))"

text \<open>
  C1. The round trip fails on a mapping that holds a table under a key that contains
  \<^verbatim>\<open>path\<close>, such as \<^verbatim>\<open>{"paths": {"data": "/srv/data"}}\<close>. Path resolution of the raw
  mapping recurses into the table and succeeds. The decoder packs the table into a node
  and then calls the processor on the node, where \<^verbatim>\<open>Path(node)\<close> raises \<^verbatim>\<open>TypeError\<close>;
  through \<^verbatim>\<open>load\<close>, where the outermost mapping is decoded by \<^verbatim>\<open>_object_hook\<close>, the same
  exception comes from \<^verbatim>\<open>convert_path\<close> in \<^verbatim>\<open>set_attr\<close>. No tree is produced that could
  be encoded. Where path resolution returns and no table sits under such a key, the
  law holds, as shown above.
\<close>

theorem path_table_breaks_roundtrip:
  "path_resolve test_env raw_paths = Inr raw_paths
   \<and> pack_dict (ConfigDecoder test_env) raw_paths ''root'' = Inl TypeError
   \<and> dumps_loads (ConfigDecoder env_cfg) (PDict raw_paths)
       = Inr (PDict [(''paths'', PObj (Made ''Paths'') [(''data'', PStr ''/srv/data'')])])
   \<and> fst (load env_cfg fs_cfg (PStr ''/work/cfg.json'') store0) = Some TypeError"
  by code_simp

end
